theory Spec2Isabelle
  imports Main "HOL-Library.AList"
begin

section \<open>Data model of build\_snapshot.mjs\<close>

text \<open>
  The script keeps two kinds of objects that carry a timestamp \<open>t\<close> (milliseconds since
  the epoch): samples \<open>{t, bikes}\<close> stored in the history, and delta events
  \<open>{t, delta}\<close> produced by \<open>toDeltas\<close>. Both are records extending a common record
  with the field \<open>t\<close>, so that \<open>t\<close> reads the timestamp of either, as the property access
  \<open>.t\<close> does in the source. JavaScript numbers are modelled as unbounded integers: the
  timestamps come from \<open>Date.now()\<close> and the counts are the feed's integer bike counts.
\<close>

record timed =
  t :: int

record sample = timed +
  bikes :: int

record deltaEvent = timed +
  delta :: int

text \<open>
  A plain JavaScript object used as a dictionary with string keys is an association list
  in insertion order: reading a property is \<open>map_of\<close>, assigning one is \<open>AList.update\<close>
  (overwrite in place, or append a new key at the end), \<open>delete\<close> is \<open>AList.delete\<close>, and
  \<open>for ... in\<close> walks the keys \<open>map fst\<close>. JavaScript enumerates keys that look like
  array indices before the others; the list keeps plain insertion order, and the
  properties below are about lookups and sums, which do not depend on the order of keys.
\<close>

type_synonym 'v obj = "(string \<times> 'v) list"

type_synonym history = "sample list obj"

section \<open>toDeltas\<close>

text \<open>
  \<^verbatim>\<open>
  function toDeltas(samples) {
    const out = [];
    for (let i = 1; i < samples.length; i++) {
      const prev = samples[i - 1];
      const curr = samples[i];
      const delta = curr.bikes - prev.bikes;
      if (delta !== 0) out.push({ t: curr.t, delta });
    }
    return out;
  }
  \<close>
  The loop is the recursion \<open>toDeltas_loop\<close> on the index \<open>i\<close> with the array \<open>out\<close> as
  accumulator; every index read is in range because \<open>1 \<le> i < length samples\<close>.
\<close>

function toDeltas_loop :: "sample list \<Rightarrow> nat \<Rightarrow> deltaEvent list \<Rightarrow> deltaEvent list" where
  "toDeltas_loop samples i out =
     (if i < length samples then
        (let prev = samples ! (i - 1);
             curr = samples ! i;
             d = bikes curr - bikes prev
         in toDeltas_loop samples (i + 1)
              (if d \<noteq> 0 then out @ [\<lparr>t = t curr, delta = d\<rparr>] else out))
      else out)"
  by pat_completeness auto
termination
  by (relation "measure (\<lambda>(samples, i, out). length samples - i)") auto

declare toDeltas_loop.simps [simp del]

definition toDeltas :: "sample list \<Rightarrow> deltaEvent list" where
  "toDeltas samples = toDeltas_loop samples 1 []"

section \<open>sumNet\<close>

text \<open>
  \<^verbatim>\<open>
  function sumNet(deltas, fromMs, toMs) {
    let net = 0;
    for (let i = deltas.length - 1; i >= 0; i--) {
      const e = deltas[i];
      if (e.t < fromMs) break;
      if (e.t <= toMs) net += e.delta;
    }
    return net;
  }
  \<close>
  \<open>sumNet_loop deltas fromMs toMs k net\<close> is the loop at \<open>i = k - 1\<close>: the argument \<open>0\<close> is
  the exit \<open>i = -1\<close>, and \<open>Suc i\<close> runs the body at index \<open>i\<close>.
\<close>

fun sumNet_loop :: "deltaEvent list \<Rightarrow> int \<Rightarrow> int \<Rightarrow> nat \<Rightarrow> int \<Rightarrow> int" where
  "sumNet_loop deltas fromMs toMs 0 net = net"
| "sumNet_loop deltas fromMs toMs (Suc i) net =
     (let e = deltas ! i
      in if t e < fromMs then net
         else sumNet_loop deltas fromMs toMs i (if t e \<le> toMs then net + delta e else net))"

definition sumNet :: "deltaEvent list \<Rightarrow> int \<Rightarrow> int \<Rightarrow> int" where
  "sumNet deltas fromMs toMs = sumNet_loop deltas fromMs toMs (length deltas) 0"

text \<open>The events of a list that lie in the closed window from \<open>fromMs\<close> to \<open>toMs\<close>.\<close>

definition inWindow :: "int \<Rightarrow> int \<Rightarrow> deltaEvent list \<Rightarrow> deltaEvent list" where
  "inWindow fromMs toMs deltas = filter (\<lambda>e. fromMs \<le> t e \<and> t e \<le> toMs) deltas"

section \<open>saveHistory: pruning\<close>

definition MEMORY_HRS :: int where
  "MEMORY_HRS = 36"

definition SHORT_WIN_MS :: int where
  "SHORT_WIN_MS = 15 * 60 * 1000"

text \<open>
  \<^verbatim>\<open>
  function saveHistory(history) {
    const cutoff = now - MEMORY_HRS * 60 * 60 * 1000;
    for (const id in history.stations) {
      history.stations[id] = history.stations[id].filter(s => s.t >= cutoff);
      if (history.stations[id].length === 0) delete history.stations[id];
    }
    fs.writeFileSync("history.json", JSON.stringify(history));
  }
  \<close>
  \<open>pruneStation\<close> is the body of the loop for one key, \<open>saveHistory\<close> runs it over the keys
  of the object and returns the history that is written to the file. The module-level
  constant \<open>now\<close> is an argument.
\<close>

definition pruneStation :: "int \<Rightarrow> string \<Rightarrow> history \<Rightarrow> history" where
  "pruneStation cutoff sid h =
     (case map_of h sid of
        None \<Rightarrow> h
      | Some series \<Rightarrow>
          (let kept = filter (\<lambda>s. t s \<ge> cutoff) series;
               h1 = AList.update sid kept h
           in if length kept = 0 then AList.delete sid h1 else h1))"

definition saveHistory :: "history \<Rightarrow> int \<Rightarrow> history" where
  "saveHistory h now =
     (let cutoff = now - MEMORY_HRS * 60 * 60 * 1000
      in fold (pruneStation cutoff) (map fst h) h)"

section \<open>main: ingestion of the feed\<close>

text \<open>
  The values a field of the parsed feed can hold, as far as \<open>typeof\<close> tells them apart;
  \<open>JUndefined\<close> is a field that is missing.
\<close>

datatype jsval = JNumber int | JString string | JBool bool | JNull | JUndefined

record stationStatus =
  station_id :: string
  num_bikes_available :: jsval

text \<open>
  \<^verbatim>\<open>
  const latest = {};
  for (const s of stationsStatus) {
    if (typeof s.num_bikes_available === "number") {
      latest[s.station_id] = s.num_bikes_available;
    }
  }
  \<close>
  Only numbers are stored in \<open>latest\<close>, so the later test \<open>typeof bikes !== "number"\<close> on
  \<open>latest[id]\<close> holds exactly when the key is absent.
\<close>

definition latestStep :: "stationStatus \<Rightarrow> int obj \<Rightarrow> int obj" where
  "latestStep s latest =
     (case num_bikes_available s of
        JNumber n \<Rightarrow> AList.update (station_id s) n latest
      | _ \<Rightarrow> latest)"

definition buildLatest :: "stationStatus list \<Rightarrow> int obj" where
  "buildLatest stationsStatus = fold latestStep stationsStatus []"

text \<open>
  \<^verbatim>\<open>
  if (!history.stations[id]) history.stations[id] = [];
  const arr = history.stations[id];
  if (arr.length === 0 || arr[arr.length - 1].t < now - 60 * 1000) {
    arr.push({ t: now, bikes });
  }
  \<close>
  \<open>arr\<close> is the array stored in the object, so the push is an update of the entry.
\<close>

definition appendSample :: "history \<Rightarrow> string \<Rightarrow> int \<Rightarrow> int \<Rightarrow> history" where
  "appendSample h sid b now =
     (let h1 = (case map_of h sid of None \<Rightarrow> AList.update sid [] h | Some _ \<Rightarrow> h);
          arr = (case map_of h1 sid of None \<Rightarrow> [] | Some a \<Rightarrow> a)
      in if length arr = 0 \<or> t (last arr) < now - 60 * 1000
         then AList.update sid (arr @ [\<lparr>t = now, bikes = b\<rparr>]) h1
         else h1)"

text \<open>
  \<^verbatim>\<open>
  for (const s of stationsInfo) {
    const id = s.station_id;
    const bikes = latest[id];
    if (typeof bikes !== "number") continue;
    ... append ...
  }
  \<close>
  Only \<open>station_id\<close> is read from an entry of the station information, so
  \<open>stationsInfo\<close> is the list of these ids.
\<close>

definition ingestStation :: "int obj \<Rightarrow> int \<Rightarrow> string \<Rightarrow> history \<Rightarrow> history" where
  "ingestStation latest now sid h =
     (case map_of latest sid of
        None \<Rightarrow> h
      | Some b \<Rightarrow> appendSample h sid b now)"

definition ingest :: "int \<Rightarrow> string list \<Rightarrow> stationStatus list \<Rightarrow> history \<Rightarrow> history" where
  "ingest now stationsInfo stationsStatus h =
     fold (ingestStation (buildLatest stationsStatus) now) stationsInfo h"

section \<open>main: the snapshot\<close>

text \<open>
  \<open>midnight\<close>, \<open>hourStart\<close> and the key of an hourly bucket are computed by the
  local-time methods of \<open>Date\<close>, which depend on the time zone of the process. They are
  the three fields of a \<open>zone\<close>, given to the model as an argument.
\<close>

record zone =
  midnight :: "int \<Rightarrow> int"
  hourStart :: "int \<Rightarrow> int"
  hourKey :: "int \<Rightarrow> string"

definition publishWindow :: string where
  "publishWindow = ''day''"

text \<open>
  \<^verbatim>\<open>
  const deltas = toDeltas(samples);
  const net_day  = sumNet(deltas, dayFrom, now);
  const net_hour = sumNet(deltas, hourFrom, now);
  const net_now  = sumNet(deltas, nowFrom, now);
  const net = publishWindow === "hour" ? net_hour : publishWindow === "now" ? net_now : net_day;
  \<close>
\<close>

definition stationNet :: "zone \<Rightarrow> int \<Rightarrow> sample list \<Rightarrow> int" where
  "stationNet z now samples =
     (let dayFrom = midnight z now;
          hourFrom = hourStart z now;
          nowFrom = now - SHORT_WIN_MS;
          deltas = toDeltas samples;
          net_day = sumNet deltas dayFrom now;
          net_hour = sumNet deltas hourFrom now;
          net_now = sumNet deltas nowFrom now
      in if publishWindow = ''hour'' then net_hour
         else if publishWindow = ''now'' then net_now
         else net_day)"

record netAcc =
  byStation :: "int obj"
  totPickups :: int
  totReturns :: int

text \<open>
  \<^verbatim>\<open>
  for (const s of stationsInfo) {
    const id = s.station_id;
    const samples = history.stations[id];
    if (!samples || samples.length < 2) continue;
    ...
    if (net !== 0) {
      byStation[id] = net;
      if (net < 0) totPickups += (-net); else totReturns += net;
    }
  }
  \<close>
\<close>

definition netStep :: "zone \<Rightarrow> int \<Rightarrow> history \<Rightarrow> string \<Rightarrow> netAcc \<Rightarrow> netAcc" where
  "netStep z now h sid acc =
     (case map_of h sid of
        None \<Rightarrow> acc
      | Some samples \<Rightarrow>
          if length samples < 2 then acc
          else (let net = stationNet z now samples
                in if net \<noteq> 0
                   then (let acc1 = acc\<lparr>byStation := AList.update sid net (byStation acc)\<rparr>
                         in if net < 0 then acc1\<lparr>totPickups := totPickups acc1 + (- net)\<rparr>
                            else acc1\<lparr>totReturns := totReturns acc1 + net\<rparr>)
                   else acc))"

record flow =
  pickups :: int
  returns :: int

text \<open>
  \<^verbatim>\<open>
  for (const e of deltas) {
    const h = new Date(e.t); h.setMinutes(0, 0, 0);
    const key = `${h.getFullYear()}-...-... ${...h.getHours()...}`;
    if (!hourly[key]) hourly[key] = { pickups: 0, returns: 0 };
    if (e.delta < 0) hourly[key].pickups += (-e.delta); else hourly[key].returns += e.delta;
  }
  \<close>
\<close>

definition hourlyEvent :: "zone \<Rightarrow> deltaEvent \<Rightarrow> flow obj \<Rightarrow> flow obj" where
  "hourlyEvent z e hourly =
     (let key = hourKey z (t e);
          hourly1 = (case map_of hourly key of
                       None \<Rightarrow> AList.update key \<lparr>pickups = 0, returns = 0\<rparr> hourly
                     | Some _ \<Rightarrow> hourly);
          b = (case map_of hourly1 key of None \<Rightarrow> \<lparr>pickups = 0, returns = 0\<rparr> | Some b \<Rightarrow> b)
      in if delta e < 0
         then AList.update key (b\<lparr>pickups := pickups b + (- delta e)\<rparr>) hourly1
         else AList.update key (b\<lparr>returns := returns b + delta e\<rparr>) hourly1)"

definition hourlyStation :: "zone \<Rightarrow> history \<Rightarrow> string \<Rightarrow> flow obj \<Rightarrow> flow obj" where
  "hourlyStation z h sid hourly =
     (case map_of h sid of
        None \<Rightarrow> hourly
      | Some samples \<Rightarrow>
          if length samples < 2 then hourly
          else fold (hourlyEvent z) (toDeltas samples) hourly)"

text \<open>
  The snapshot, without \<open>generated_at\<close> (the ISO rendering of \<open>now\<close>). \<open>stations\<close> is
  \<open>Object.entries(byStation)\<close> with each entry \<open>[id, net]\<close> turned into \<open>{id, net}\<close>:
  the pairs of the object, in its order.
\<close>

record snapshot =
  window :: string
  short_window_minutes :: int
  stations :: "(string \<times> int) list"
  totals :: flow
  hourly :: "flow obj"

definition buildSnapshot :: "zone \<Rightarrow> int \<Rightarrow> history \<Rightarrow> string list \<Rightarrow> snapshot" where
  "buildSnapshot z now h stationsInfo =
     (let acc = fold (netStep z now h) stationsInfo
                  \<lparr>byStation = [], totPickups = 0, totReturns = 0\<rparr>;
          hly = fold (hourlyStation z h) stationsInfo []
      in \<lparr>window = publishWindow,
          short_window_minutes = 15,
          stations = byStation acc,
          totals = \<lparr>pickups = totPickups acc, returns = totReturns acc\<rparr>,
          hourly = hly\<rparr>)"

text \<open>
  One run: the history loaded from the file and the two feeds go in, the snapshot and the
  history written by \<open>saveHistory\<close> come out.
\<close>

definition main :: "zone \<Rightarrow> int \<Rightarrow> history \<Rightarrow> string list \<Rightarrow> stationStatus list \<Rightarrow> snapshot \<times> history" where
  "main z now history0 stationsInfo stationsStatus =
     (let h = ingest now stationsInfo stationsStatus history0;
          snap = buildSnapshot z now h stationsInfo
      in (snap, saveHistory h now))"

section \<open>A zone: the process runs in UTC\<close>

text \<open>
  For runs on concrete inputs, the zone of a process whose local time is UTC (for
  timestamps in the range of \<open>Date\<close>): \<open>setHours(0, 0, 0, 0)\<close> and \<open>setMinutes(0, 0, 0)\<close>
  round down to a multiple of a day and of an hour, and the key is
  \<open>year-month-day hour\<close> of the proleptic Gregorian calendar, month, day and hour padded
  to two digits and the year printed as the number it is.
\<close>

fun decimal :: "nat \<Rightarrow> string" where
  "decimal n =
     (if n < 10 then [''0123456789'' ! n]
      else decimal (n div 10) @ [''0123456789'' ! (n mod 10)])"

declare decimal.simps [simp del]

definition pad2 :: "int \<Rightarrow> string" where
  "pad2 n = (if n < 10 then ''0'' @ decimal (nat n) else decimal (nat n))"

definition utcYMD :: "int \<Rightarrow> int \<times> int \<times> int" where
  "utcYMD days =
     (let z = days + 719468;
          era = z div 146097;
          doe = z mod 146097;
          yoe = (doe - doe div 1460 + doe div 36524 - doe div 146096) div 365;
          doy = doe - (365 * yoe + yoe div 4 - yoe div 100);
          mp = (5 * doy + 2) div 153;
          d = doy - (153 * mp + 2) div 5 + 1;
          m = (if mp < 10 then mp + 3 else mp - 9);
          y = yoe + era * 400 + (if m \<le> 2 then 1 else 0)
      in (y, m, d))"

definition utcHourKey :: "int \<Rightarrow> string" where
  "utcHourKey ms =
     (case utcYMD (ms div 86400000) of
        (y, m, d) \<Rightarrow>
          (if y < 0 then ''-'' @ decimal (nat (- y)) else decimal (nat y))
          @ ''-'' @ pad2 m @ ''-'' @ pad2 d @ '' '' @ pad2 ((ms mod 86400000) div 3600000))"

definition utc :: zone where
  "utc = \<lparr>midnight = (\<lambda>ms. ms - ms mod 86400000),
          hourStart = (\<lambda>ms. ms - ms mod 3600000),
          hourKey = utcHourKey\<rparr>"

section \<open>Notions used to state the properties\<close>

text \<open>The series of a station: the empty series when the history has no entry for it.\<close>

definition seriesOf :: "history \<Rightarrow> string \<Rightarrow> sample list" where
  "seriesOf h sid = (case map_of h sid of None \<Rightarrow> [] | Some series \<Rightarrow> series)"

text \<open>The test \<open>typeof v === "number"\<close>.\<close>

fun isNumber :: "jsval \<Rightarrow> bool" where
  "isNumber (JNumber n) = True"
| "isNumber _ = False"

text \<open>Consecutive samples of a series are more than one minute apart.\<close>

fun spaced :: "sample list \<Rightarrow> bool" where
  "spaced (a # b # rest) = (60 * 1000 < t b - t a \<and> spaced (b # rest))"
| "spaced _ = True"

text \<open>Sums over the published stations, as the totals invariant of the snapshot words them.\<close>

definition pickupsOf :: "(string \<times> int) list \<Rightarrow> int" where
  "pickupsOf sts = sum_list (map (\<lambda>(sid, net). - net) (filter (\<lambda>(sid, net). net < 0) sts))"

definition returnsOf :: "(string \<times> int) list \<Rightarrow> int" where
  "returnsOf sts = sum_list (map (\<lambda>(sid, net). net) (filter (\<lambda>(sid, net). 0 < net) sts))"

text \<open>
  The events of the listed stations, one run of \<open>toDeltas\<close> per entry of the station
  information, and the two sums of an hourly bucket over a list of events.
\<close>

definition listedEvents :: "history \<Rightarrow> string list \<Rightarrow> deltaEvent list" where
  "listedEvents h stationsInfo = concat (map (\<lambda>sid. toDeltas (seriesOf h sid)) stationsInfo)"

definition eventPickups :: "deltaEvent list \<Rightarrow> int" where
  "eventPickups es = sum_list (map (\<lambda>e. - delta e) (filter (\<lambda>e. delta e < 0) es))"

definition eventReturns :: "deltaEvent list \<Rightarrow> int" where
  "eventReturns es = sum_list (map delta (filter (\<lambda>e. 0 < delta e) es))"

section \<open>Properties of toDeltas\<close>

lemma toDeltas_loop_closed:
  "toDeltas_loop samples i out =
     out @ map (\<lambda>j. \<lparr>t = t (samples ! j), delta = bikes (samples ! j) - bikes (samples ! (j - 1))\<rparr>)
             (filter (\<lambda>j. bikes (samples ! j) - bikes (samples ! (j - 1)) \<noteq> 0) [i..<length samples])"
proof (induction samples i out rule: toDeltas_loop.induct)
  case (1 samples i out)
  show ?case
  proof (cases "i < length samples")
    case True
    then have u: "[i..<length samples] = i # [i + 1..<length samples]"
      by (simp add: upt_conv_Cons)
    note ih = "1.IH" [OF True refl refl refl]
    show ?thesis
    proof (cases "bikes (samples ! i) - bikes (samples ! (i - 1)) = 0")
      case True
      with \<open>i < length samples\<close> ih show ?thesis
        by (subst toDeltas_loop.simps) (simp only: u Let_def, simp)
    next
      case False
      with \<open>i < length samples\<close> ih show ?thesis
        by (subst toDeltas_loop.simps) (simp only: u Let_def, simp)
    qed
  next
    case False
    then show ?thesis
      by (subst toDeltas_loop.simps) simp
  qed
qed

lemma toDeltas_Nil: "toDeltas [] = []"
  by (simp add: toDeltas_def toDeltas_loop_closed)

lemma toDeltas_single: "toDeltas [a] = []"
  by (simp add: toDeltas_def toDeltas_loop_closed)

text \<open>
  Claim C2. \<open>toDeltas\<close> emits, for the adjacent pairs \<open>(samples[i-1], samples[i])\<close> in the
  order of the input, the event \<open>{t: samples[i].t, delta: samples[i].bikes - samples[i-1].bikes}\<close>
  exactly when that difference is not zero; the output has at most \<open>samples.length - 1\<close>
  events, and a series of fewer than two samples gives the empty list.
\<close>

theorem toDeltas_spec:
  "toDeltas samples =
     map (\<lambda>i. \<lparr>t = t (samples ! i), delta = bikes (samples ! i) - bikes (samples ! (i - 1))\<rparr>)
       (filter (\<lambda>i. bikes (samples ! i) - bikes (samples ! (i - 1)) \<noteq> 0) [1..<length samples])
   \<and> length (toDeltas samples) \<le> length samples - 1
   \<and> (length samples < 2 \<longrightarrow> toDeltas samples = [])"
proof -
  have c: "toDeltas samples =
     map (\<lambda>i. \<lparr>t = t (samples ! i), delta = bikes (samples ! i) - bikes (samples ! (i - 1))\<rparr>)
       (filter (\<lambda>i. bikes (samples ! i) - bikes (samples ! (i - 1)) \<noteq> 0) [1..<length samples])"
    by (simp add: toDeltas_def toDeltas_loop_closed)
  have "length (filter (\<lambda>i. bikes (samples ! i) - bikes (samples ! (i - 1)) \<noteq> 0) [1..<length samples])
        \<le> length [1..<length samples]"
    by (rule length_filter_le)
  then have l: "length (toDeltas samples) \<le> length samples - 1"
    by (simp add: c)
  from l have "length samples < 2 \<longrightarrow> toDeltas samples = []"
    by auto
  with c l show ?thesis by blast
qed

theorem toDeltas_spec_witness:
  "length [\<lparr>t = 0, bikes = 10\<rparr>] < 2 \<and> toDeltas [\<lparr>t = 0, bikes = 10\<rparr>] = []
   \<and> toDeltas [\<lparr>t = 0, bikes = 10\<rparr>, \<lparr>t = 300000, bikes = 7\<rparr>, \<lparr>t = 600000, bikes = 9\<rparr>]
       = [\<lparr>t = 300000, delta = -3\<rparr>, \<lparr>t = 600000, delta = 2\<rparr>]"
  using toDeltas_spec [of "[\<lparr>t = 0, bikes = 10\<rparr>]"]
    toDeltas_spec [of "[\<lparr>t = 0, bikes = 10\<rparr>, \<lparr>t = 300000, bikes = 7\<rparr>, \<lparr>t = 600000, bikes = 9\<rparr>]"]
  by (simp add: upt_conv_Cons)

section \<open>Properties of sumNet\<close>

lemma sorted_take_le:
  assumes "sorted (map t ds)" "k < length ds" "e \<in> set (take (Suc k) ds)"
  shows "t e \<le> t (ds ! k)"
proof -
  from assms(3) obtain j where j: "j < Suc k" "j < length ds" "e = ds ! j"
    by (auto simp: in_set_conv_nth)
  from assms(1) have "\<forall>i j. i \<le> j \<longrightarrow> j < length (map t ds) \<longrightarrow> map t ds ! i \<le> map t ds ! j"
    by (simp only: sorted_iff_nth_mono)
  with j assms(2) have "map t ds ! j \<le> map t ds ! k"
    by (metis length_map less_Suc_eq_le)
  with j assms(2) show ?thesis by simp
qed

lemma sumNet_loop_closed:
  "k \<le> length ds \<Longrightarrow> sorted (map t ds) \<Longrightarrow>
   sumNet_loop ds f u k net = net + sum_list (map delta (inWindow f u (take k ds)))"
proof (induction k arbitrary: net)
  case 0
  then show ?case by (simp add: inWindow_def)
next
  case (Suc k)
  then have k: "k < length ds" by simp
  have tk: "take (Suc k) ds = take k ds @ [ds ! k]"
    using k by (simp add: take_Suc_conv_app_nth)
  show ?case
  proof (cases "t (ds ! k) < f")
    case True
    have "\<forall>e \<in> set (take (Suc k) ds). \<not> (f \<le> t e \<and> t e \<le> u)"
      using sorted_take_le [OF Suc.prems(2) k] True by fastforce
    then have "inWindow f u (take (Suc k) ds) = []"
      unfolding inWindow_def by (simp only: filter_empty_conv) 
    with True show ?thesis by (simp add: Let_def)
  next
    case False
    have ih: "\<And>n. sumNet_loop ds f u k n = n + sum_list (map delta (inWindow f u (take k ds)))"
      using Suc.IH [OF _ Suc.prems(2)] k by simp
    from False show ?thesis
      by (simp add: Let_def ih tk inWindow_def)
  qed
qed

text \<open>
  Claim C1. On a list of delta events in ascending order of \<open>t\<close>, \<open>sumNet\<close> returns the sum
  of \<open>delta\<close> over exactly the events with \<open>fromMs \<le> t \<le> toMs\<close>, whatever \<open>fromMs\<close> and
  \<open>toMs\<close> are, and \<open>0\<close> when no event lies in the window: the backward scan that stops at
  the first event with \<open>t < fromMs\<close> drops no event of the window and counts none outside it.
\<close>

theorem sumNet_window:
  assumes "sorted (map t deltas)"
  shows "sumNet deltas fromMs toMs = sum_list (map delta (inWindow fromMs toMs deltas))
       \<and> (inWindow fromMs toMs deltas = [] \<longrightarrow> sumNet deltas fromMs toMs = 0)"
  using sumNet_loop_closed [OF le_refl assms, of fromMs toMs 0]
  by (simp add: sumNet_def)

theorem sumNet_window_witness:
  "sorted (map t [\<lparr>t = 300000, delta = -3\<rparr>, \<lparr>t = 600000, delta = 2\<rparr>])
   \<and> sumNet [\<lparr>t = 300000, delta = -3\<rparr>, \<lparr>t = 600000, delta = 2\<rparr>] 0 600000 = -1
   \<and> sumNet [\<lparr>t = 300000, delta = -3\<rparr>, \<lparr>t = 600000, delta = 2\<rparr>] 400000 700000 = 2
   \<and> inWindow 700000 900000 [\<lparr>t = 300000, delta = -3\<rparr>, \<lparr>t = 600000, delta = 2\<rparr>] = []
   \<and> sumNet [\<lparr>t = 300000, delta = -3\<rparr>, \<lparr>t = 600000, delta = 2\<rparr>] 700000 900000 = 0"
proof -
  let ?ds = "[\<lparr>t = 300000, delta = -3\<rparr>, \<lparr>t = 600000, delta = 2::int\<rparr>]"
  have s: "sorted (map t ?ds)" by simp
  show ?thesis
    using s sumNet_window [OF s, of 0 600000] sumNet_window [OF s, of 400000 700000]
      sumNet_window [OF s, of 700000 900000]
    by (simp add: inWindow_def)
qed

section \<open>Properties of the append\<close>

lemma appendSample_lookup:
  "map_of (appendSample h sid b now) sid' =
     (if sid' = sid
      then Some (if seriesOf h sid = [] \<or> t (last (seriesOf h sid)) < now - 60 * 1000
                 then seriesOf h sid @ [\<lparr>t = now, bikes = b\<rparr>]
                 else seriesOf h sid)
      else map_of h sid')"
  by (cases "map_of h sid")
    (simp_all add: appendSample_def seriesOf_def Let_def AList.update_conv')

lemma seriesOf_appendSample:
  "seriesOf (appendSample h sid b now) sid =
     (if seriesOf h sid = [] \<or> t (last (seriesOf h sid)) < now - 60 * 1000
      then seriesOf h sid @ [\<lparr>t = now, bikes = b\<rparr>]
      else seriesOf h sid)"
  by (simp add: seriesOf_def [of "appendSample h sid b now"] appendSample_lookup)

text \<open>
  Claim C4. The append of \<open>{t: now, bikes}\<close> to the series of a station happens if and
  only if the series is empty or the \<open>t\<close> of its last sample is older than
  \<open>now - 60000\<close>; so a second append whose \<open>now2\<close> is within 60 seconds of the last
  sample's timestamp leaves the length of the series unchanged, whatever count it brings.
\<close>

theorem appendSample_debounce:
  "seriesOf (appendSample h sid b now) sid =
     (if seriesOf h sid = [] \<or> t (last (seriesOf h sid)) < now - 60 * 1000
      then seriesOf h sid @ [\<lparr>t = now, bikes = b\<rparr>]
      else seriesOf h sid)
   \<and> (now2 - 60 * 1000 \<le> t (last (seriesOf (appendSample h sid b now) sid)) \<longrightarrow>
        length (seriesOf (appendSample (appendSample h sid b now) sid b2 now2) sid)
          = length (seriesOf (appendSample h sid b now) sid))"
proof -
  have ne: "seriesOf (appendSample h sid b now) sid \<noteq> []"
    by (simp add: seriesOf_appendSample)
  show ?thesis
    using ne by (simp add: seriesOf_appendSample [of "appendSample h sid b now"])
      (simp add: seriesOf_appendSample)
qed

theorem appendSample_debounce_witness:
  "seriesOf (appendSample [] ''a'' 10 600000) ''a'' = [\<lparr>t = 600000, bikes = 10\<rparr>]
   \<and> 650000 - 60 * 1000 \<le> t (last (seriesOf (appendSample [] ''a'' 10 600000) ''a''))
   \<and> length (seriesOf (appendSample (appendSample [] ''a'' 10 600000) ''a'' 7 650000) ''a'') = 1"
  using appendSample_debounce [of "[]" "''a''" 10 600000 650000 7]
  by (simp add: seriesOf_def)

text \<open>
  Claim C10. The append for one station changes only that station's entry of the history:
  the entry of every other station id (present or not, and its series) is as before.
\<close>

theorem appendSample_frame:
  "sid' \<noteq> sid \<Longrightarrow> map_of (appendSample h sid b now) sid' = map_of h sid'"
  by (simp add: appendSample_lookup)

theorem appendSample_frame_witness:
  "''b'' \<noteq> ''a''
   \<and> map_of (appendSample [(''b'', [\<lparr>t = 0, bikes = 4\<rparr>])] ''a'' 10 600000) ''b''
       = Some [\<lparr>t = 0, bikes = 4\<rparr>]"
  using appendSample_frame [of "''b''" "''a''" "[(''b'', [\<lparr>t = 0, bikes = 4\<rparr>])]" 10 600000]
  by simp

lemma spaced_append:
  "spaced (xs @ [x]) = (spaced xs \<and> (xs = [] \<or> 60 * 1000 < t x - t (last xs)))"
  by (induction xs rule: spaced.induct) auto

lemma spaced_strict:
  "spaced xs \<Longrightarrow> sorted_wrt (<) (map t xs)"
proof (induction xs rule: spaced.induct)
  case (1 a b rest)
  then have "60 * 1000 < t b - t a" and "sorted_wrt (<) (map t (b # rest))"
    by simp_all
  then show ?case by fastforce
qed simp_all

lemma toDeltas_strict:
  assumes "sorted_wrt (<) (map t samples)"
  shows "sorted_wrt (<) (map t (toDeltas samples))"
proof -
  let ?nz = "\<lambda>j. bikes (samples ! j) - bikes (samples ! (j - 1)) \<noteq> 0"
  from assms have nth: "\<And>i j. i < j \<Longrightarrow> j < length samples \<Longrightarrow> t (samples ! i) < t (samples ! j)"
    by (simp add: sorted_wrt_iff_nth_less)
  have "sorted_wrt (\<lambda>i j. t (samples ! i) < t (samples ! j)) [1..<length samples]"
    by (simp add: sorted_wrt_iff_nth_less nth)
  then have "sorted_wrt (\<lambda>i j. t (samples ! i) < t (samples ! j)) (filter ?nz [1..<length samples])"
    by (rule sorted_wrt_filter)
  then show ?thesis
    by (simp add: toDeltas_def toDeltas_loop_closed sorted_wrt_map comp_def)
qed

text \<open>
  Claim C9. On a series whose consecutive samples are more than 60000 ms apart, the append
  leaves the series unchanged or adds a last sample whose \<open>t\<close> is more than 60000 ms after
  the previous last one; the series stays spaced, so its timestamps are strictly
  increasing and so are those of the events \<open>toDeltas\<close> derives from it. This holds for
  every \<open>now\<close>, in particular for those not earlier than the last timestamp.
\<close>

theorem appendSample_spacing:
  assumes "spaced (seriesOf h sid)"
  shows "(seriesOf (appendSample h sid b now) sid = seriesOf h sid
          \<or> seriesOf (appendSample h sid b now) sid = seriesOf h sid @ [\<lparr>t = now, bikes = b\<rparr>]
            \<and> (seriesOf h sid = [] \<or> 60 * 1000 < now - t (last (seriesOf h sid))))
       \<and> spaced (seriesOf (appendSample h sid b now) sid)
       \<and> sorted_wrt (<) (map t (seriesOf (appendSample h sid b now) sid))
       \<and> sorted_wrt (<) (map t (toDeltas (seriesOf (appendSample h sid b now) sid)))"
proof -
  let ?old = "seriesOf h sid" and ?new = "seriesOf (appendSample h sid b now) sid"
  have a: "?new = ?old \<or> ?new = ?old @ [\<lparr>t = now, bikes = b\<rparr>]
            \<and> (?old = [] \<or> 60 * 1000 < now - t (last ?old))"
    by (auto simp add: seriesOf_appendSample)
  have b: "spaced ?new"
    using a assms by (auto simp add: spaced_append)
  from b have c: "sorted_wrt (<) (map t ?new)" by (rule spaced_strict)
  from c have d: "sorted_wrt (<) (map t (toDeltas ?new))" by (rule toDeltas_strict)
  from a b c d show ?thesis by blast
qed

theorem appendSample_spacing_witness:
  "spaced (seriesOf [(''a'', [\<lparr>t = 0, bikes = 10\<rparr>, \<lparr>t = 300000, bikes = 7\<rparr>])] ''a'')
   \<and> seriesOf (appendSample [(''a'', [\<lparr>t = 0, bikes = 10\<rparr>, \<lparr>t = 300000, bikes = 7\<rparr>])] ''a'' 9 600000) ''a''
       = [\<lparr>t = 0, bikes = 10\<rparr>, \<lparr>t = 300000, bikes = 7\<rparr>, \<lparr>t = 600000, bikes = 9\<rparr>]
   \<and> spaced (seriesOf (appendSample [(''a'', [\<lparr>t = 0, bikes = 10\<rparr>, \<lparr>t = 300000, bikes = 7\<rparr>])] ''a'' 9 600000) ''a'')
   \<and> sorted_wrt (<) (map t (toDeltas (seriesOf (appendSample [(''a'', [\<lparr>t = 0, bikes = 10\<rparr>, \<lparr>t = 300000, bikes = 7\<rparr>])] ''a'' 9 600000) ''a'')))"
proof -
  let ?h = "[(''a'', [\<lparr>t = 0, bikes = 10\<rparr>, \<lparr>t = 300000, bikes = 7\<rparr>])]"
  have s: "spaced (seriesOf ?h ''a'')" by (simp add: seriesOf_def)
  have e: "seriesOf (appendSample ?h ''a'' 9 600000) ''a''
       = [\<lparr>t = 0, bikes = 10\<rparr>, \<lparr>t = 300000, bikes = 7\<rparr>, \<lparr>t = 600000, bikes = 9\<rparr>]"
    by (simp add: seriesOf_def appendSample_def)
  from s e appendSample_spacing [OF s, of 9 600000] show ?thesis by simp
qed

lemma buildLatest_none:
  assumes "\<forall>s \<in> set stationsStatus. station_id s = sid \<longrightarrow> \<not> isNumber (num_bikes_available s)"
    and "map_of latest sid = None"
  shows "map_of (fold latestStep stationsStatus latest) sid = None"
  using assms
proof (induction stationsStatus arbitrary: latest)
  case Nil
  then show ?case by simp
next
  case (Cons s rest)
  have "map_of (latestStep s latest) sid = None"
  proof (cases "num_bikes_available s")
    case (JNumber n)
    with Cons.prems(1) have "station_id s \<noteq> sid" by auto
    with JNumber Cons.prems(2) show ?thesis
      by (simp add: latestStep_def AList.update_conv')
  qed (simp_all add: latestStep_def Cons.prems(2))
  with Cons show ?case by simp
qed

lemma ingestStation_frame:
  "map_of latest sid = None \<Longrightarrow> map_of (ingestStation latest now x h) sid = map_of h sid"
  by (cases "x = sid"; cases "map_of latest x") (simp_all add: ingestStation_def appendSample_lookup)

lemma ingest_fold_frame:
  "map_of latest sid = None \<Longrightarrow>
   map_of (fold (ingestStation latest now) stationsInfo h) sid = map_of h sid"
  by (induction stationsInfo arbitrary: h) (simp_all add: ingestStation_frame)

text \<open>
  Claim C7. For a station with no numeric live count in the status feed (every status
  entry of the station has a missing or non-numeric \<open>num_bikes_available\<close>, or there is no
  entry), the ingestion appends no sample: the station's entry of the history is exactly
  as before. The ingestion is a total function, it has no failing branch.
\<close>

theorem ingest_skips_non_numeric:
  assumes "\<forall>s \<in> set stationsStatus. station_id s = sid \<longrightarrow> \<not> isNumber (num_bikes_available s)"
  shows "map_of (ingest now stationsInfo stationsStatus h) sid = map_of h sid"
proof -
  have "map_of (buildLatest stationsStatus) sid = None"
    unfolding buildLatest_def by (rule buildLatest_none [OF assms]) simp
  then show ?thesis
    unfolding ingest_def by (rule ingest_fold_frame)
qed

theorem ingest_skips_non_numeric_witness:
  "\<not> isNumber JNull
   \<and> map_of (ingest 600000 [''a'', ''b'']
        [\<lparr>station_id = ''a'', num_bikes_available = JNull\<rparr>,
         \<lparr>station_id = ''b'', num_bikes_available = JNumber 5\<rparr>]
        [(''a'', [\<lparr>t = 0, bikes = 10\<rparr>])]) ''a'' = Some [\<lparr>t = 0, bikes = 10\<rparr>]
   \<and> map_of (ingest 600000 [''a'', ''b'']
        [\<lparr>station_id = ''a'', num_bikes_available = JNull\<rparr>,
         \<lparr>station_id = ''b'', num_bikes_available = JNumber 5\<rparr>]
        [(''a'', [\<lparr>t = 0, bikes = 10\<rparr>])]) ''b'' = Some [\<lparr>t = 600000, bikes = 5\<rparr>]"
proof -
  let ?st = "[\<lparr>station_id = ''a'', num_bikes_available = JNull\<rparr>,
              \<lparr>station_id = ''b'', num_bikes_available = JNumber 5\<rparr>]"
  have p: "\<forall>s \<in> set ?st. station_id s = ''a'' \<longrightarrow> \<not> isNumber (num_bikes_available s)"
    by simp
  have b: "map_of (ingest 600000 [''a'', ''b''] ?st [(''a'', [\<lparr>t = 0, bikes = 10\<rparr>])]) ''b''
             = Some [\<lparr>t = 600000, bikes = 5\<rparr>]"
    by (simp add: ingest_def buildLatest_def latestStep_def ingestStation_def appendSample_def)
  from b ingest_skips_non_numeric [OF p, of 600000 "[''a'', ''b'']" "[(''a'', [\<lparr>t = 0, bikes = 10\<rparr>])]"]
  show ?thesis by simp
qed

section \<open>Properties of the pruning\<close>

lemma pruneStation_series:
  "seriesOf (pruneStation c x h) k =
     (if k = x then filter (\<lambda>s. \<not> t s < c) (seriesOf h k) else seriesOf h k)"
  by (cases "map_of h x")
    (simp_all add: pruneStation_def seriesOf_def Let_def AList.update_conv' AList.delete_conv'
      not_less)

lemma pruneStation_dom:
  "(k \<in> dom (map_of (pruneStation c x h))) =
     (if k = x then filter (\<lambda>s. \<not> t s < c) (seriesOf h k) \<noteq> [] else k \<in> dom (map_of h))"
  by (cases "map_of h x")
    (auto simp add: pruneStation_def seriesOf_def Let_def AList.update_conv' AList.delete_conv'
      not_less)

lemma prune_fold_series:
  "seriesOf (fold (pruneStation c) ks h) k =
     (if k \<in> set ks then filter (\<lambda>s. \<not> t s < c) (seriesOf h k) else seriesOf h k)"
  by (induction ks arbitrary: h) (simp_all add: pruneStation_series)

lemma prune_fold_dom:
  "(k \<in> dom (map_of (fold (pruneStation c) ks h))) =
     (if k \<in> set ks then filter (\<lambda>s. \<not> t s < c) (seriesOf h k) \<noteq> [] else k \<in> dom (map_of h))"
  by (induction ks arbitrary: h) (simp_all add: pruneStation_series pruneStation_dom)

lemma seriesOf_no_key: "k \<notin> fst ` set h \<Longrightarrow> seriesOf h k = []"
  by (simp add: seriesOf_def map_of_eq_None_iff [THEN iffD2])

text \<open>
  Claim C5. \<open>saveHistory\<close> removes from the series of every station exactly the samples
  with \<open>t < now - 36 * 3600000\<close> and keeps the others in order, and the history it writes
  has an entry for a station exactly when a sample of that station is kept.
\<close>

theorem saveHistory_prunes:
  "seriesOf (saveHistory h now) sid
     = filter (\<lambda>s. \<not> t s < now - 36 * 3600000) (seriesOf h sid)
   \<and> (sid \<in> fst ` set (saveHistory h now))
     = (filter (\<lambda>s. \<not> t s < now - 36 * 3600000) (seriesOf h sid) \<noteq> [])"
proof -
  let ?c = "now - 36 * 3600000"
  have sh: "saveHistory h now = fold (pruneStation ?c) (map fst h) h"
    by (simp add: saveHistory_def MEMORY_HRS_def)
  have a: "seriesOf (saveHistory h now) sid = filter (\<lambda>s. \<not> t s < ?c) (seriesOf h sid)"
    unfolding sh by (cases "sid \<in> fst ` set h") (simp_all add: prune_fold_series seriesOf_no_key)
  have k: "(sid \<in> dom (map_of h)) = (sid \<in> fst ` set h)"
    by (simp only: dom_map_of_conv_image_fst)
  have "(sid \<in> dom (map_of (saveHistory h now)))
          = (filter (\<lambda>s. \<not> t s < ?c) (seriesOf h sid) \<noteq> [])"
    unfolding sh prune_fold_dom k
    by (cases "sid \<in> fst ` set h") (simp_all add: seriesOf_no_key)
  then have b: "(sid \<in> fst ` set (saveHistory h now))
          = (filter (\<lambda>s. \<not> t s < ?c) (seriesOf h sid) \<noteq> [])"
    by (simp only: dom_map_of_conv_image_fst)
  from a b show ?thesis by blast
qed

section \<open>Properties of the snapshot\<close>

lemma toDeltas_short: "length samples < 2 \<Longrightarrow> toDeltas samples = []"
  by (simp add: toDeltas_def toDeltas_loop_closed)

lemma netStep_unfold:
  "netStep z now h x acc =
     (if 2 \<le> length (seriesOf h x) \<and> stationNet z now (seriesOf h x) \<noteq> 0
      then acc\<lparr>byStation := AList.update x (stationNet z now (seriesOf h x)) (byStation acc),
               totPickups := totPickups acc
                 + (if stationNet z now (seriesOf h x) < 0 then - stationNet z now (seriesOf h x) else 0),
               totReturns := totReturns acc
                 + (if stationNet z now (seriesOf h x) < 0 then 0 else stationNet z now (seriesOf h x))\<rparr>
      else acc)"
  by (cases "map_of h x") (simp_all add: netStep_def seriesOf_def Let_def not_less)

lemma netFold_lookup:
  "map_of (byStation (fold (netStep z now h) ids acc)) k =
     (if k \<in> set ids \<and> 2 \<le> length (seriesOf h k) \<and> stationNet z now (seriesOf h k) \<noteq> 0
      then Some (stationNet z now (seriesOf h k))
      else map_of (byStation acc) k)"
proof (induction ids arbitrary: acc)
  case Nil
  then show ?case by simp
next
  case (Cons x rest)
  have "map_of (byStation (netStep z now h x acc)) k =
     (if k = x \<and> 2 \<le> length (seriesOf h k) \<and> stationNet z now (seriesOf h k) \<noteq> 0
      then Some (stationNet z now (seriesOf h k))
      else map_of (byStation acc) k)"
    by (auto simp add: netStep_unfold AList.update_conv')
  then show ?case
    by (auto simp add: Cons.IH)
qed

lemma netFold_distinct:
  "distinct (map fst (byStation acc)) \<Longrightarrow>
   distinct (map fst (byStation (fold (netStep z now h) ids acc)))"
proof (induction ids arbitrary: acc)
  case Nil
  then show ?case by simp
next
  case (Cons x rest)
  from Cons.prems have "distinct (map fst (byStation (netStep z now h x acc)))"
    by (simp add: netStep_unfold AList.distinct_update)
  then show ?case
    by (simp add: Cons.IH)
qed

text \<open>
  Claim C8, as amended. A station appears in the \<open>stations\<close> list of the snapshot, with
  net \<open>n\<close>, if and only if it is listed in the station information, its series in the
  history (after the ingestion of the run) has at least 2 samples, and \<open>n\<close> is its net
  over the published window and is not zero. So every published net is non-zero and a
  listed station whose net is exactly 0 is left out.
\<close>

theorem published_stations:
  "((sid, n) \<in> set (stations (fst (main z now history0 stationsInfo stationsStatus)))) =
     (sid \<in> set stationsInfo
      \<and> 2 \<le> length (seriesOf (ingest now stationsInfo stationsStatus history0) sid)
      \<and> n = stationNet z now (seriesOf (ingest now stationsInfo stationsStatus history0) sid)
      \<and> n \<noteq> (0::int))"
proof -
  let ?h = "ingest now stationsInfo stationsStatus history0"
  let ?acc = "fold (netStep z now ?h) stationsInfo \<lparr>byStation = [], totPickups = 0, totReturns = 0\<rparr>"
  have st: "stations (fst (main z now history0 stationsInfo stationsStatus)) = byStation ?acc"
    by (simp add: main_def buildSnapshot_def Let_def)
  have d: "distinct (map fst (byStation ?acc))"
    by (rule netFold_distinct) simp
  have "((sid, n) \<in> set (byStation ?acc)) = (map_of (byStation ?acc) sid = Some n)"
    using d by simp
  then show ?thesis
    unfolding st by (auto simp add: netFold_lookup)
qed

text \<open>
  Claim C8 as stated fails for a station that the history holds but the station
  information does not list: station \<open>x\<close> has two samples and net \<open>-3\<close> over the day, and
  the snapshot publishes no station.
\<close>

theorem unlisted_station_not_published:
  "2 \<le> length (seriesOf (ingest 600000 [''y''] [\<lparr>station_id = ''y'', num_bikes_available = JNumber 4\<rparr>]
           [(''x'', [\<lparr>t = 0, bikes = 10\<rparr>, \<lparr>t = 300000, bikes = 7\<rparr>])]) ''x'')
   \<and> stationNet utc 600000 (seriesOf (ingest 600000 [''y''] [\<lparr>station_id = ''y'', num_bikes_available = JNumber 4\<rparr>]
           [(''x'', [\<lparr>t = 0, bikes = 10\<rparr>, \<lparr>t = 300000, bikes = 7\<rparr>])]) ''x'') = - 3
   \<and> stations (fst (main utc 600000 [(''x'', [\<lparr>t = 0, bikes = 10\<rparr>, \<lparr>t = 300000, bikes = 7\<rparr>])] [''y'']
           [\<lparr>station_id = ''y'', num_bikes_available = JNumber 4\<rparr>])) = []"
  by code_simp

lemma update_fresh: "k \<notin> fst ` set al \<Longrightarrow> AList.update k v al = al @ [(k, v)]"
  by (induction al) auto

lemma netFold_totals:
  "distinct ids \<Longrightarrow> set ids \<inter> fst ` set (byStation acc) = {} \<Longrightarrow>
   totPickups (fold (netStep z now h) ids acc) - pickupsOf (byStation (fold (netStep z now h) ids acc))
     = totPickups acc - pickupsOf (byStation acc)
   \<and> totReturns (fold (netStep z now h) ids acc) - returnsOf (byStation (fold (netStep z now h) ids acc))
     = totReturns acc - returnsOf (byStation acc)"
proof (induction ids arbitrary: acc)
  case Nil
  then show ?case by simp
next
  case (Cons x rest)
  let ?a = "netStep z now h x acc"
  from Cons.prems have fresh: "x \<notin> fst ` set (byStation acc)" by auto
  have keys: "fst ` set (byStation ?a) \<subseteq> insert x (fst ` set (byStation acc))"
    by (auto simp add: netStep_unfold AList.dom_update)
  have one: "totPickups ?a - pickupsOf (byStation ?a) = totPickups acc - pickupsOf (byStation acc)
     \<and> totReturns ?a - returnsOf (byStation ?a) = totReturns acc - returnsOf (byStation acc)"
    by (simp add: netStep_unfold update_fresh [OF fresh] pickupsOf_def returnsOf_def)
  from Cons.prems keys have "distinct rest" and "set rest \<inter> fst ` set (byStation ?a) = {}"
    by auto
  from Cons.IH [OF this] one show ?case by simp
qed

text \<open>
  Claim C3, as amended. When the station information lists no station id twice,
  \<open>totals.pickups\<close> is the sum of \<open>-net\<close> over the published stations with negative net and
  \<open>totals.returns\<close> is the sum of \<open>net\<close> over the published stations with positive net.
\<close>

theorem totals_of_published:
  assumes "distinct stationsInfo"
  shows "pickups (totals (fst (main z now history0 stationsInfo stationsStatus)))
           = pickupsOf (stations (fst (main z now history0 stationsInfo stationsStatus)))
       \<and> returns (totals (fst (main z now history0 stationsInfo stationsStatus)))
           = returnsOf (stations (fst (main z now history0 stationsInfo stationsStatus)))"
proof -
  let ?h = "ingest now stationsInfo stationsStatus history0"
  let ?a0 = "\<lparr>byStation = [], totPickups = 0, totReturns = 0\<rparr>"
  have "set stationsInfo \<inter> fst ` set (byStation ?a0) = {}" by simp
  from netFold_totals [OF assms this, of z now ?h] show ?thesis
    by (simp add: main_def buildSnapshot_def Let_def pickupsOf_def returnsOf_def)
qed

theorem totals_of_published_witness:
  "distinct [''a'', ''b'', ''c'']
   \<and> stations (fst (main utc 4000000
        [(''a'', [\<lparr>t = 0, bikes = 10\<rparr>, \<lparr>t = 300000, bikes = 7\<rparr>]), (''b'', [\<lparr>t = 300000, bikes = 2\<rparr>])]
        [''a'', ''b'', ''c'']
        [\<lparr>station_id = ''a'', num_bikes_available = JNumber 8\<rparr>,
         \<lparr>station_id = ''b'', num_bikes_available = JNumber 6\<rparr>,
         \<lparr>station_id = ''c'', num_bikes_available = JNull\<rparr>]))
       = [(''a'', - 2), (''b'', 4)]
   \<and> pickups (totals (fst (main utc 4000000
        [(''a'', [\<lparr>t = 0, bikes = 10\<rparr>, \<lparr>t = 300000, bikes = 7\<rparr>]), (''b'', [\<lparr>t = 300000, bikes = 2\<rparr>])]
        [''a'', ''b'', ''c'']
        [\<lparr>station_id = ''a'', num_bikes_available = JNumber 8\<rparr>,
         \<lparr>station_id = ''b'', num_bikes_available = JNumber 6\<rparr>,
         \<lparr>station_id = ''c'', num_bikes_available = JNull\<rparr>]))) = 2
   \<and> returns (totals (fst (main utc 4000000
        [(''a'', [\<lparr>t = 0, bikes = 10\<rparr>, \<lparr>t = 300000, bikes = 7\<rparr>]), (''b'', [\<lparr>t = 300000, bikes = 2\<rparr>])]
        [''a'', ''b'', ''c'']
        [\<lparr>station_id = ''a'', num_bikes_available = JNumber 8\<rparr>,
         \<lparr>station_id = ''b'', num_bikes_available = JNumber 6\<rparr>,
         \<lparr>station_id = ''c'', num_bikes_available = JNull\<rparr>]))) = 4"
proof -
  let ?run = "main utc 4000000
        [(''a'', [\<lparr>t = 0, bikes = 10\<rparr>, \<lparr>t = 300000, bikes = 7\<rparr>]), (''b'', [\<lparr>t = 300000, bikes = 2\<rparr>])]
        [''a'', ''b'', ''c'']
        [\<lparr>station_id = ''a'', num_bikes_available = JNumber 8\<rparr>,
         \<lparr>station_id = ''b'', num_bikes_available = JNumber 6\<rparr>,
         \<lparr>station_id = ''c'', num_bikes_available = JNull\<rparr>]"
  have d: "distinct [''a'', ''b'', ''c'']" by simp
  have ev: "stations (fst ?run) = [(''a'', - 2), (''b'', 4)]" by code_simp
  from d ev totals_of_published [OF d, of utc 4000000
        "[(''a'', [\<lparr>t = 0, bikes = 10\<rparr>, \<lparr>t = 300000, bikes = 7\<rparr>]), (''b'', [\<lparr>t = 300000, bikes = 2\<rparr>])]"
        "[\<lparr>station_id = ''a'', num_bikes_available = JNumber 8\<rparr>,
         \<lparr>station_id = ''b'', num_bikes_available = JNumber 6\<rparr>,
         \<lparr>station_id = ''c'', num_bikes_available = JNull\<rparr>]"]
  show ?thesis by (simp add: pickupsOf_def returnsOf_def)
qed

text \<open>
  Claim C3 as stated fails when the station information lists a station twice: the
  station is published once, with net \<open>-3\<close>, and counted twice in \<open>totals.pickups\<close>.
\<close>

theorem totals_duplicate_listing:
  "stations (fst (main utc 600000 [(''a'', [\<lparr>t = 0, bikes = 10\<rparr>, \<lparr>t = 300000, bikes = 7\<rparr>])] [''a'', ''a''] []))
     = [(''a'', - 3)]
   \<and> pickupsOf [(''a'', - 3)] = 3
   \<and> pickups (totals (fst (main utc 600000 [(''a'', [\<lparr>t = 0, bikes = 10\<rparr>, \<lparr>t = 300000, bikes = 7\<rparr>])] [''a'', ''a''] []))) = 6
   \<and> pickups (totals (fst (main utc 600000 [(''a'', [\<lparr>t = 0, bikes = 10\<rparr>, \<lparr>t = 300000, bikes = 7\<rparr>])] [''a'', ''a''] [])))
     \<noteq> pickupsOf (stations (fst (main utc 600000 [(''a'', [\<lparr>t = 0, bikes = 10\<rparr>, \<lparr>t = 300000, bikes = 7\<rparr>])] [''a'', ''a''] [])))"
  by code_simp

lemma hourlyEvent_lookup:
  "map_of (hourlyEvent z e hm) k =
     (if hourKey z (t e) = k
      then Some \<lparr>pickups = pickups (case map_of hm k of None \<Rightarrow> \<lparr>pickups = 0, returns = 0\<rparr> | Some b \<Rightarrow> b)
                     + (if delta e < 0 then - delta e else 0),
                 returns = returns (case map_of hm k of None \<Rightarrow> \<lparr>pickups = 0, returns = 0\<rparr> | Some b \<Rightarrow> b)
                     + (if delta e < 0 then 0 else delta e)\<rparr>
      else map_of hm k)"
  by (cases "map_of hm (hourKey z (t e))")
    (auto simp add: hourlyEvent_def Let_def AList.update_conv')

lemma hourlyFold_lookup:
  "map_of (fold (hourlyEvent z) es hm) k =
     (if filter (\<lambda>e. hourKey z (t e) = k) es = [] then map_of hm k
      else Some \<lparr>pickups = pickups (case map_of hm k of None \<Rightarrow> \<lparr>pickups = 0, returns = 0\<rparr> | Some b \<Rightarrow> b)
                     + eventPickups (filter (\<lambda>e. hourKey z (t e) = k) es),
                 returns = returns (case map_of hm k of None \<Rightarrow> \<lparr>pickups = 0, returns = 0\<rparr> | Some b \<Rightarrow> b)
                     + eventReturns (filter (\<lambda>e. hourKey z (t e) = k) es)\<rparr>)"
proof (induction es arbitrary: hm)
  case Nil
  then show ?case by simp
next
  case (Cons e rest)
  show ?case
  proof (cases "hourKey z (t e) = k")
    case True
    then show ?thesis
      by (simp add: Cons.IH hourlyEvent_lookup eventPickups_def eventReturns_def)
  next
    case False
    then show ?thesis
      by (simp add: Cons.IH hourlyEvent_lookup)
  qed
qed

lemma hourlyStation_fold:
  "hourlyStation z h x hm = fold (hourlyEvent z) (toDeltas (seriesOf h x)) hm"
  by (cases "map_of h x")
    (simp_all add: hourlyStation_def seriesOf_def toDeltas_short toDeltas_Nil)

lemma hourlyStations_fold:
  "fold (hourlyStation z h) ids hm = fold (hourlyEvent z) (listedEvents h ids) hm"
  by (induction ids arbitrary: hm) (simp_all add: listedEvents_def hourlyStation_fold)

text \<open>
  Claim C6, as amended. The hourly mapping is built from every delta event of the full
  series of the stations listed in the station information, one scan of the series per
  entry of the list and not only the published window: the bucket of a key exists exactly
  when some such event has that key as the key of its hour; its \<open>pickups\<close> is the sum of
  \<open>-delta\<close> over those events with negative delta and its \<open>returns\<close> the sum of \<open>delta\<close> over
  those with positive delta.
\<close>

theorem hourly_of_listed:
  "map_of (hourly (fst (main z now history0 stationsInfo stationsStatus))) key =
     (if filter (\<lambda>e. hourKey z (t e) = key)
           (listedEvents (ingest now stationsInfo stationsStatus history0) stationsInfo) = []
      then None
      else Some \<lparr>pickups = eventPickups (filter (\<lambda>e. hourKey z (t e) = key)
                    (listedEvents (ingest now stationsInfo stationsStatus history0) stationsInfo)),
                 returns = eventReturns (filter (\<lambda>e. hourKey z (t e) = key)
                    (listedEvents (ingest now stationsInfo stationsStatus history0) stationsInfo))\<rparr>)"
  by (simp add: main_def buildSnapshot_def Let_def hourlyStations_fold hourlyFold_lookup)

text \<open>
  Claim C6 as stated fails for a station of the history that the station information does
  not list: the series of \<open>x\<close> has the event \<open>{t: 300000, delta: -3}\<close>, and the hourly
  mapping is empty.
\<close>

theorem unlisted_station_not_in_hourly:
  "toDeltas (seriesOf (ingest 600000 [] [] [(''x'', [\<lparr>t = 0, bikes = 10\<rparr>, \<lparr>t = 300000, bikes = 7\<rparr>])]) ''x'')
     = [\<lparr>t = 300000, delta = - 3\<rparr>]
   \<and> hourly (fst (main utc 600000 [(''x'', [\<lparr>t = 0, bikes = 10\<rparr>, \<lparr>t = 300000, bikes = 7\<rparr>])] [] [])) = []"
  by code_simp

end
